theory Spec2Isabelle
  imports Main "HOL-Library.Char_ord" "HOL-Library.Monad_Syntax"
begin

section \<open>The condition linter of honeylint: lexer and \<open>ParseCondition\<close>\<close>

text \<open>
  The Go program in \<^verbatim>\<open>main.go\<close> reads a file and passes its contents to
  \<^verbatim>\<open>ParseCondition\<close>, which runs a hand-written lexer over the string and then
  inspects the first, second and last token. This theory embeds the lexer and
  \<^verbatim>\<open>ParseCondition\<close>.

  Conventions of the embedding.
  \<^item> A Go \<^verbatim>\<open>string\<close> is a sequence of bytes, indexed by byte: it is a \<open>string\<close>
    (\<open>char list\<close>, a \<open>char\<close> being one byte).
  \<^item> Go's \<^verbatim>\<open>int\<close> is \<open>int\<close>. The only arithmetic on it is \<^verbatim>\<open>l.pos++\<close> and
    \<^verbatim>\<open>l.pos - 1\<close> on a cursor that is compared with the length of the input, so no
    operation can leave the 64-bit range.
  \<^item> A run-time panic (index or slice bounds out of range) is the value \<open>None\<close>: every
    function that indexes returns an \<open>option\<close>.
  \<^item> The methods of \<^verbatim>\<open>*Lexer\<close> mutate the receiver: they take the lexer and return
    the updated one.
  \<^item> \<^verbatim>\<open>fmt.Println(word)\<close> in \<^verbatim>\<open>readKeyword\<close> writes to standard output: functions
    that may print return the list of the lines they wrote.
  \<^item> The pair \<^verbatim>\<open>(string, error)\<close> returned by \<^verbatim>\<open>ParseCondition\<close> is a pair of a
    \<open>string\<close> and an \<open>error option\<close>, \<open>None\<close> being \<^verbatim>\<open>nil\<close>.
\<close>

subsection \<open>Tokens and the keyword table\<close>

datatype Token =
    ILLEGAL | EOF | WHITESPACE | AND | OR | NOT | LPAREN | RPAREN
  | EQUALS | NOT_EQUALS | REG_MATCH | EXISTS | IN | LT | LTE | GT | GTE

definition keywords_map :: "string \<rightharpoonup> Token" where
  "keywords_map = map_of
     [(''AND'', AND),
      (''OR'', OR),
      (''NOT'', NOT),
      (''='', EQUALS),
      (''!='', NOT_EQUALS),
      (''=~'', REG_MATCH),
      (''EXISTS'', EXISTS),
      (''IN'', IN),
      (''<'', LT),
      (''<='', LTE),
      (''>'', GT),
      (''>='', GTE)]"

subsection \<open>Indexing and slicing, with their bounds checks\<close>

definition len :: "'a list \<Rightarrow> int" where
  "len xs = int (length xs)"

text \<open>\<^verbatim>\<open>xs[i]\<close>: panics unless \<open>0 \<le> i < len xs\<close>.\<close>

definition index :: "'a list \<Rightarrow> int \<Rightarrow> 'a option" where
  "index xs i = (if 0 \<le> i \<and> i < len xs then Some (xs ! nat i) else None)"

text \<open>\<^verbatim>\<open>s[lo:hi]\<close>: panics unless \<open>0 \<le> lo \<le> hi \<le> len s\<close>.\<close>

definition slice :: "'a list \<Rightarrow> int \<Rightarrow> int \<Rightarrow> 'a list option" where
  "slice xs lo hi =
     (if 0 \<le> lo \<and> lo \<le> hi \<and> hi \<le> len xs
      then Some (take (nat (hi - lo)) (drop (nat lo) xs)) else None)"

subsection \<open>Character classes\<close>

definition isLetter :: "char \<Rightarrow> bool" where
  "isLetter ch = ((ch \<ge> CHR ''a'' \<and> ch \<le> CHR ''z'') \<or> (ch \<ge> CHR ''A'' \<and> ch \<le> CHR ''Z''))"

subsection \<open>The lexer\<close>

record Lexer =
  input :: string
  pos :: int

definition NewLexer :: "string \<Rightarrow> Lexer" where
  "NewLexer s = \<lparr>input = s, pos = 0\<rparr>"

declare Option.bind_cong [fundef_cong]

text \<open>
  \<^verbatim>\<open>skipWhitespace\<close>: the loop runs while the cursor is inside the input and stops
  (\<^verbatim>\<open>break\<close>) at the first byte that is not a space, tab, carriage return or newline.
\<close>

function skipWhitespace :: "Lexer \<Rightarrow> Lexer option" where
  "skipWhitespace l =
     (if pos l < len (input l) then
        do {
          ch \<leftarrow> index (input l) (pos l);
          if ch \<noteq> CHR '' '' \<and> ch \<noteq> CHR 0x09 \<and> ch \<noteq> CHR 0x0D \<and> ch \<noteq> CHR 0x0A
          then Some l
          else skipWhitespace (l\<lparr>pos := pos l + 1\<rparr>)
        }
      else Some l)"
  by pat_completeness auto
termination
  by (relation "measure (\<lambda>l. nat (len (input l) - pos l))") auto

declare skipWhitespace.simps [simp del]

definition peek :: "Lexer \<Rightarrow> char option" where
  "peek l = (if pos l \<ge> len (input l) then Some (CHR 0x00) else index (input l) (pos l))"

text \<open>
  The loop of \<^verbatim>\<open>readKeyword\<close>:
  \<^verbatim>\<open>for l.pos < len(l.input) && isLetter(l.input[l.pos]) { l.pos++ }\<close>.
\<close>

function readKeyword_loop :: "Lexer \<Rightarrow> Lexer option" where
  "readKeyword_loop l =
     (if pos l < len (input l) then
        do {
          ch \<leftarrow> index (input l) (pos l);
          if isLetter ch then readKeyword_loop (l\<lparr>pos := pos l + 1\<rparr>) else Some l
        }
      else Some l)"
  by pat_completeness auto
termination
  by (relation "measure (\<lambda>l. nat (len (input l) - pos l))") auto

declare readKeyword_loop.simps [simp del]

text \<open>
  \<^verbatim>\<open>readKeyword\<close> returns the token, the lexer and the lines printed: a word that is
  not in the table is printed and gives \<open>ILLEGAL\<close>.
\<close>

definition readKeyword :: "Lexer \<Rightarrow> (Token \<times> Lexer \<times> string list) option" where
  "readKeyword l =
     do {
       let start = pos l - 1;
       l \<leftarrow> readKeyword_loop l;
       word \<leftarrow> slice (input l) start (pos l);
       case keywords_map word of
         Some tok \<Rightarrow> Some (tok, l, [])
       | None \<Rightarrow> Some (ILLEGAL, l, [word])
     }"

definition NextToken :: "Lexer \<Rightarrow> (Token \<times> Lexer \<times> string list) option" where
  "NextToken l0 =
     do {
       l \<leftarrow> skipWhitespace l0;
       if pos l \<ge> len (input l) then Some (EOF, l, [])
       else do {
         ch \<leftarrow> index (input l) (pos l);
         let l = l\<lparr>pos := pos l + 1\<rparr>;
         if ch = CHR ''('' then Some (LPAREN, l, [])
         else if ch = CHR '')'' then Some (RPAREN, l, [])
         else if ch = CHR ''='' then
           do {
             c \<leftarrow> peek l;
             if c = CHR ''~'' then Some (REG_MATCH, l\<lparr>pos := pos l + 1\<rparr>, [])
             else Some (EQUALS, l, [])
           }
         else if ch = CHR ''!'' then
           do {
             c \<leftarrow> peek l;
             if c = CHR ''='' then Some (NOT_EQUALS, l\<lparr>pos := pos l + 1\<rparr>, [])
             else Some (NOT, l, [])
           }
         else if ch = CHR '','' then Some (WHITESPACE, l, [])
         else if ch = CHR ''<'' then
           do {
             c \<leftarrow> peek l;
             if c = CHR ''='' then Some (LTE, l\<lparr>pos := pos l + 1\<rparr>, [])
             else Some (LT, l, [])
           }
         else if ch = CHR ''>'' then
           do {
             c \<leftarrow> peek l;
             if c = CHR ''='' then Some (GTE, l\<lparr>pos := pos l + 1\<rparr>, [])
             else Some (GT, l, [])
           }
         else if isLetter ch then readKeyword l
         else Some (ILLEGAL, l, [])
       }
     }"

subsection \<open>Progress of the lexer\<close>

lemma skipWhitespace_keeps:
  "skipWhitespace l = Some l' \<Longrightarrow> input l' = input l \<and> pos l \<le> pos l'"
proof (induction l rule: skipWhitespace.induct)
  case (1 l)
  from "1.prems" show ?case
    by (subst (asm) skipWhitespace.simps)
       (auto split: if_splits Option.bind_splits dest!: "1.IH")
qed

lemma readKeyword_loop_keeps:
  "readKeyword_loop l = Some l' \<Longrightarrow> input l' = input l \<and> pos l \<le> pos l'"
proof (induction l rule: readKeyword_loop.induct)
  case (1 l)
  from "1.prems" show ?case
    by (subst (asm) readKeyword_loop.simps)
       (auto split: if_splits Option.bind_splits dest!: "1.IH")
qed

lemma readKeyword_keeps:
  "readKeyword l = Some (tok, l', printed) \<Longrightarrow> input l' = input l \<and> pos l \<le> pos l'"
  by (auto simp: readKeyword_def Let_def
           split: Option.bind_splits option.splits dest: readKeyword_loop_keeps)

lemma NextToken_progress:
  assumes "NextToken l = Some (tok, l', printed)" and "tok \<noteq> EOF"
  shows "input l' = input l \<and> pos l < pos l' \<and> pos l < len (input l)"
proof -
  from assms obtain l1 where l1: "skipWhitespace l = Some l1"
    by (auto simp: NextToken_def split: Option.bind_splits)
  then have k: "input l1 = input l" "pos l \<le> pos l1"
    using skipWhitespace_keeps by blast+
  from assms l1 have inside: "pos l1 < len (input l1)"
    by (auto simp: NextToken_def split: if_splits)
  from assms l1 inside have "input l' = input l1 \<and> pos l1 < pos l'"
    by (auto simp: NextToken_def Let_def
             split: if_splits Option.bind_splits dest!: readKeyword_keeps)
  with k inside show ?thesis by simp
qed

subsection \<open>\<open>ParseCondition\<close>\<close>

text \<open>
  The first loop of \<^verbatim>\<open>ParseCondition\<close> calls \<^verbatim>\<open>NextToken\<close> until it returns \<open>EOF\<close> and
  appends every other token to \<^verbatim>\<open>tokens\<close>. The function carries the lexer, the tokens
  appended so far and the lines printed so far.
\<close>

function ParseCondition_loop ::
  "Lexer \<Rightarrow> Token list \<Rightarrow> string list \<Rightarrow> (Token list \<times> string list) option" where
  "ParseCondition_loop l tokens out =
     do {
       (token, l', printed) \<leftarrow> NextToken l;
       if token = EOF then Some (tokens, out @ printed)
       else ParseCondition_loop l' (tokens @ [token]) (out @ printed)
     }"
  by pat_completeness auto
termination
proof (relation "measure (\<lambda>(l, tokens, out). nat (len (input l) - pos l))")
  show "wf (measure (\<lambda>(l, tokens, out). nat (len (input l) - pos l)))"
    by simp
next
  fix l :: Lexer and tokens :: "Token list" and out :: "string list"
    and x xa y xb ya
  assume "NextToken l = Some x" and "(xa, y) = x" and "(xb, ya) = y" and "xa \<noteq> EOF"
  then have "NextToken l = Some (xa, xb, ya)" and "xa \<noteq> EOF"
    by auto
  from NextToken_progress [OF this]
  show "((xb, tokens @ [xa], out @ ya), (l, tokens, out))
        \<in> measure (\<lambda>(l, tokens, out). nat (len (input l) - pos l))"
    by simp
qed

declare ParseCondition_loop.simps [simp del]

datatype error = Errorf string

text \<open>
  The checks of \<^verbatim>\<open>ParseCondition\<close> after the loop. Every \<^verbatim>\<open>return\<close> inside the
  \<^verbatim>\<open>if\<close>/\<^verbatim>\<open>else if\<close> chain is a branch that ends there; a branch that does not
  return falls through to the statements after the chain, here \<open>rest\<close>: the second
  test for an empty token list and \<^verbatim>\<open>return input, nil\<close>.
\<close>

definition ParseCondition :: "string \<Rightarrow> ((string \<times> error option) \<times> string list) option" where
  "ParseCondition s =
     do {
       (tokens, out) \<leftarrow> ParseCondition_loop (NewLexer s) [] [];
       let rest = (if len tokens = 0 then Some ('''', Some (Errorf ''Empty condition''))
                   else Some (s, None));
       r \<leftarrow>
         (if len tokens = 0 then Some ('''', Some (Errorf ''Empty condition''))
          else do {
            t0 \<leftarrow> index tokens 0;
            if t0 = NOT then
              (if len tokens = 1 then
                 Some ('''', Some (Errorf ''NOT operator must be followed by a condition''))
               else do {
                 t1 \<leftarrow> index tokens 1;
                 if t1 = LPAREN then
                   do {
                     tl \<leftarrow> index tokens (len tokens - 1);
                     if tl \<noteq> RPAREN then Some ('''', Some (Errorf ''Mismatched parentheses''))
                     else rest
                   }
                 else rest
               })
            else if t0 = LPAREN then
              do {
                tl \<leftarrow> index tokens (len tokens - 1);
                if tl \<noteq> RPAREN then Some ('''', Some (Errorf ''Mismatched parentheses''))
                else rest
              }
            else if t0 = EXISTS then
              (if len tokens = 1 then
                 Some ('''', Some (Errorf ''EXISTS operator must be followed by a field name''))
               else do {
                 t1 \<leftarrow> index tokens 1;
                 if t1 \<noteq> WHITESPACE then
                   Some ('''', Some (Errorf ''EXISTS operator must be followed by a field name''))
                 else rest
               })
            else if t0 = IN then
              (if len tokens = 1 then
                 Some ('''', Some (Errorf ''IN operator must be followed by a field name''))
               else do {
                 t1 \<leftarrow> index tokens 1;
                 if t1 \<noteq> WHITESPACE then
                   Some ('''', Some (Errorf ''IN operator must be followed by a field name''))
                 else rest
               })
            else if t0 = REG_MATCH then
              (if len tokens = 1 then
                 Some ('''', Some (Errorf ''=~ operator must be followed by a field name''))
               else do {
                 t1 \<leftarrow> index tokens 1;
                 if t1 \<noteq> WHITESPACE then
                   Some ('''', Some (Errorf ''=~ operator must be followed by a field name''))
                 else rest
               })
            else if t0 = ILLEGAL then Some ('''', Some (Errorf ''Invalid condition''))
            else rest
          });
       Some (r, out)
     }"

subsection \<open>The lexer and the loop never panic\<close>

lemma index_Some: "0 \<le> i \<Longrightarrow> i < len xs \<Longrightarrow> index xs i = Some (xs ! nat i)"
  by (simp add: index_def)

lemma skipWhitespace_total:
  "0 \<le> pos l \<Longrightarrow> \<exists>l'. skipWhitespace l = Some l'"
proof (induction l rule: skipWhitespace.induct)
  case (1 l)
  show ?case
  proof (cases "pos l < len (input l)")
    case False
    then show ?thesis by (subst skipWhitespace.simps) simp
  next
    case True
    with "1.prems" have ix: "index (input l) (pos l) = Some (input l ! nat (pos l))"
      by (simp add: index_Some)
    show ?thesis
    proof (cases "input l ! nat (pos l) \<noteq> CHR '' '' \<and> input l ! nat (pos l) \<noteq> CHR 0x09
                  \<and> input l ! nat (pos l) \<noteq> CHR 0x0D \<and> input l ! nat (pos l) \<noteq> CHR 0x0A")
      case stop: True
      with True ix show ?thesis by (subst skipWhitespace.simps) simp
    next
      case go: False
      with "1.IH" [OF True ix] "1.prems"
      obtain l' where "skipWhitespace (l\<lparr>pos := pos l + 1\<rparr>) = Some l'"
        by auto
      with True ix go show ?thesis by (subst skipWhitespace.simps) auto
    qed
  qed
qed

lemma readKeyword_loop_total:
  "0 \<le> pos l \<Longrightarrow> pos l \<le> len (input l) \<Longrightarrow>
   \<exists>l'. readKeyword_loop l = Some l' \<and> pos l' \<le> len (input l)"
proof (induction l rule: readKeyword_loop.induct)
  case (1 l)
  show ?case
  proof (cases "pos l < len (input l)")
    case False
    with "1.prems" show ?thesis by (subst readKeyword_loop.simps) simp
  next
    case True
    with "1.prems" have ix: "index (input l) (pos l) = Some (input l ! nat (pos l))"
      by (simp add: index_Some)
    show ?thesis
    proof (cases "isLetter (input l ! nat (pos l))")
      case stop: False
      with True ix "1.prems" show ?thesis by (subst readKeyword_loop.simps) simp
    next
      case go: True
      with "1.IH" [OF True ix] "1.prems" True
      obtain l' where "readKeyword_loop (l\<lparr>pos := pos l + 1\<rparr>) = Some l'" "pos l' \<le> len (input l)"
        by auto
      with True ix go show ?thesis by (subst readKeyword_loop.simps) auto
    qed
  qed
qed

lemma readKeyword_total:
  assumes "1 \<le> pos l" and "pos l \<le> len (input l)"
  shows "\<exists>tok l' printed. readKeyword l = Some (tok, l', printed) \<and> tok \<noteq> EOF"
proof -
  from assms obtain l' where l': "readKeyword_loop l = Some l'" "pos l' \<le> len (input l)"
    using readKeyword_loop_total [of l] by auto
  then have k: "input l' = input l" "pos l \<le> pos l'"
    using readKeyword_loop_keeps by blast+
  with assms l' have "slice (input l') (pos l - 1) (pos l')
      = Some (take (nat (pos l' - (pos l - 1))) (drop (nat (pos l - 1)) (input l')))"
    by (simp add: slice_def)
  with l' show ?thesis
    by (auto simp: readKeyword_def Let_def keywords_map_def split: option.splits if_splits)
qed

lemma peek_total: "0 \<le> pos l \<Longrightarrow> \<exists>c. peek l = Some c"
  by (simp add: peek_def index_def)

lemma NextToken_total:
  assumes "0 \<le> pos l"
  shows "\<exists>tok l' printed. NextToken l = Some (tok, l', printed)"
proof -
  from assms obtain l1 where l1: "skipWhitespace l = Some l1"
    using skipWhitespace_total by blast
  then have k: "input l1 = input l" "pos l \<le> pos l1"
    using skipWhitespace_keeps by blast+
  show ?thesis
  proof (cases "pos l1 \<ge> len (input l1)")
    case True
    with l1 show ?thesis by (simp add: NextToken_def)
  next
    case False
    with assms k have ix: "index (input l1) (pos l1) = Some (input l1 ! nat (pos l1))"
      by (simp add: index_Some)
    from assms k obtain c where c: "peek (l1\<lparr>pos := pos l1 + 1\<rparr>) = Some c"
      using peek_total [of "l1\<lparr>pos := pos l1 + 1\<rparr>"] by auto
    from assms k False obtain tok l' printed
      where "readKeyword (l1\<lparr>pos := pos l1 + 1\<rparr>) = Some (tok, l', printed)"
      using readKeyword_total [of "l1\<lparr>pos := pos l1 + 1\<rparr>"] by auto
    with l1 False ix c show ?thesis
      by (simp add: NextToken_def Let_def)
  qed
qed

lemma ParseCondition_loop_total:
  "0 \<le> pos l \<Longrightarrow>
   \<exists>toks out'. ParseCondition_loop l tokens out = Some (toks, out')
     \<and> length toks \<le> length tokens + nat (len (input l) - pos l)"
proof (induction l tokens out rule: ParseCondition_loop.induct)
  case (1 l tokens out)
  from "1.prems" obtain tok l' printed where nt: "NextToken l = Some (tok, l', printed)"
    using NextToken_total by blast
  show ?case
  proof (cases "tok = EOF")
    case True
    with nt show ?thesis by (subst ParseCondition_loop.simps) simp
  next
    case False
    from NextToken_progress [OF nt False] "1.prems"
    have p: "input l' = input l" "pos l < pos l'" "pos l < len (input l)" "0 \<le> pos l'"
      by auto
    from "1.IH" [OF nt refl refl False p(4)]
    obtain toks out' where
      r: "ParseCondition_loop l' (tokens @ [tok]) (out @ printed) = Some (toks, out')"
         "length toks \<le> length (tokens @ [tok]) + nat (len (input l') - pos l')"
      by blast
    from r(2) p have "length toks \<le> length tokens + nat (len (input l) - pos l)"
      by simp
    with nt False r(1) show ?thesis by (subst ParseCondition_loop.simps) simp
  qed
qed

subsection \<open>What \<open>NextToken\<close> returns at whitespace and at an operator\<close>

lemma skipWhitespace_all_space:
  "0 \<le> pos l \<Longrightarrow>
   \<forall>i. pos l \<le> i \<and> i < len (input l) \<longrightarrow>
       input l ! nat i \<in> {CHR '' '', CHR 0x09, CHR 0x0D, CHR 0x0A} \<Longrightarrow>
   skipWhitespace l = Some (l\<lparr>pos := max (pos l) (len (input l))\<rparr>)"
proof (induction l rule: skipWhitespace.induct)
  case (1 l)
  show ?case
  proof (cases "pos l < len (input l)")
    case False
    then show ?thesis by (subst skipWhitespace.simps) (simp add: max_def)
  next
    case True
    with "1.prems" have ix: "index (input l) (pos l) = Some (input l ! nat (pos l))"
      by (simp add: index_Some)
    from True "1.prems" have ws: "input l ! nat (pos l) \<in> {CHR '' '', CHR 0x09, CHR 0x0D, CHR 0x0A}"
      by simp
    then have go: "\<not> (input l ! nat (pos l) \<noteq> CHR '' '' \<and> input l ! nat (pos l) \<noteq> CHR 0x09
                  \<and> input l ! nat (pos l) \<noteq> CHR 0x0D \<and> input l ! nat (pos l) \<noteq> CHR 0x0A)"
      by auto
    from "1.prems" have "skipWhitespace (l\<lparr>pos := pos l + 1\<rparr>)
        = Some (l\<lparr>pos := pos l + 1\<rparr>\<lparr>pos := max (pos (l\<lparr>pos := pos l + 1\<rparr>)) (len (input (l\<lparr>pos := pos l + 1\<rparr>)))\<rparr>)"
      by (intro "1.IH" [OF True ix go]) auto
    with True have "skipWhitespace (l\<lparr>pos := pos l + 1\<rparr>) = Some (l\<lparr>pos := max (pos l) (len (input l))\<rparr>)"
      by (simp add: max_def)
    with True ix ws show ?thesis by (subst skipWhitespace.simps) auto
  qed
qed

lemma skipWhitespace_stop:
  assumes "index (input l) (pos l) = Some ch"
    and "ch \<noteq> CHR '' ''" "ch \<noteq> CHR 0x09" "ch \<noteq> CHR 0x0D" "ch \<noteq> CHR 0x0A"
  shows "skipWhitespace l = Some l"
  using assms by (subst skipWhitespace.simps) (auto simp: index_def split: if_splits)

lemma NextToken_lookahead:
  assumes "skipWhitespace l0 = Some l"
    and "index (input l) (pos l) = Some ch"
    and "ch \<in> {CHR ''='', CHR ''!'', CHR ''<'', CHR ''>''}"
  shows "NextToken l0 =
     (if index (input l) (pos l + 1) = Some (if ch = CHR ''='' then CHR ''~'' else CHR ''='')
      then Some (if ch = CHR ''='' then REG_MATCH else if ch = CHR ''!'' then NOT_EQUALS
                 else if ch = CHR ''<'' then LTE else GTE, l\<lparr>pos := pos l + 2\<rparr>, [])
      else Some (if ch = CHR ''='' then EQUALS else if ch = CHR ''!'' then NOT
                 else if ch = CHR ''<'' then LT else GT, l\<lparr>pos := pos l + 1\<rparr>, []))"
proof -
  from assms(2) have b: "0 \<le> pos l" "pos l < len (input l)"
    by (auto simp: index_def split: if_splits)
  then have pk: "peek (l\<lparr>pos := pos l + 1\<rparr>) =
      (if pos l + 1 < len (input l) then Some (input l ! nat (pos l + 1)) else Some (CHR 0x00))"
    by (simp add: peek_def index_def)
  from b have ix: "index (input l) (pos l + 1) =
      (if pos l + 1 < len (input l) then Some (input l ! nat (pos l + 1)) else None)"
    by (simp add: index_def)
  from assms(3) consider "ch = CHR ''=''" | "ch = CHR ''!''" | "ch = CHR ''<''" | "ch = CHR ''>''"
    by auto
  then show ?thesis
  proof cases
    case 1
    with assms(1,2) b show ?thesis
      by (simp add: NextToken_def Let_def pk ix)
  next
    case 2
    with assms(1,2) b show ?thesis
      by (simp add: NextToken_def Let_def pk ix)
  next
    case 3
    with assms(1,2) b show ?thesis
      by (simp add: NextToken_def Let_def pk ix)
  next
    case 4
    with assms(1,2) b show ?thesis
      by (simp add: NextToken_def Let_def pk ix)
  qed
qed

subsection \<open>The outcome of \<open>ParseCondition\<close> never is a panic\<close>

lemma keywords_map_range:
  "keywords_map w = Some tok \<Longrightarrow> tok \<in> {AND, OR, NOT, EQUALS, NOT_EQUALS, REG_MATCH, EXISTS, IN, LT, LTE, GT, GTE}"
  by (auto simp: keywords_map_def split: if_splits)

lemma NextToken_WHITESPACE_comma:
  assumes "NextToken l = Some (WHITESPACE, l', printed)"
  shows "index (input l') (pos l' - 1) = Some CHR '',''"
proof -
  from assms obtain l1 where l1: "skipWhitespace l = Some l1"
    by (auto simp: NextToken_def split: Option.bind_splits)
  from assms l1 have inside: "pos l1 < len (input l1)"
    by (auto simp: NextToken_def split: if_splits)
  from assms l1 inside obtain ch where ch: "index (input l1) (pos l1) = Some ch"
    by (auto simp: NextToken_def split: Option.bind_splits)
  have "readKeyword (l1\<lparr>pos := pos l1 + 1\<rparr>) \<noteq> Some (WHITESPACE, l', printed)"
    by (auto simp: readKeyword_def Let_def split: Option.bind_splits option.splits
             dest: keywords_map_range)
  with assms l1 inside ch have "ch = CHR '',''" and "l' = l1\<lparr>pos := pos l1 + 1\<rparr>"
    by (auto simp: NextToken_def Let_def split: if_splits Option.bind_splits)
  with ch show ?thesis by simp
qed

lemma ParseCondition_total:
  "\<exists>r e out. ParseCondition s = Some ((r, e), out) \<and> (e = None \<longrightarrow> r = s)"
proof -
  obtain toks out where loop: "ParseCondition_loop (NewLexer s) [] [] = Some (toks, out)"
    using ParseCondition_loop_total [of "NewLexer s" "[]" "[]"] by (auto simp: NewLexer_def)
  have i0: "len toks \<noteq> 0 \<Longrightarrow> index toks 0 = Some (toks ! 0)"
    and i1: "len toks \<noteq> 0 \<Longrightarrow> len toks \<noteq> 1 \<Longrightarrow> index toks 1 = Some (toks ! 1)"
    and il: "len toks \<noteq> 0 \<Longrightarrow> index toks (len toks - 1) = Some (toks ! nat (len toks - 1))"
    by (cases toks; cases "tl toks"; auto simp: index_def len_def)+
  from loop i0 i1 il show ?thesis
    by (simp add: ParseCondition_def Let_def)
qed

section \<open>The claims\<close>

text \<open>
  C7. For every input string \<open>s\<close> the loop that calls \<open>NextToken\<close> until \<open>EOF\<close> returns
  a token list (it does not panic, and it terminates: \<open>ParseCondition_loop\<close> is a total
  function whose recursion follows the loop), and the list has at most as many tokens as
  \<open>s\<close> has bytes.
\<close>

theorem tokens_at_most_length:
  "\<exists>toks out. ParseCondition_loop (NewLexer s) [] [] = Some (toks, out) \<and> length toks \<le> length s"
  using ParseCondition_loop_total [of "NewLexer s" "[]" "[]"]
  by (simp add: NewLexer_def len_def)

text \<open>
  C4. For every input that consists only of spaces, tabs, carriage returns and newlines
  (the empty input included) the token list is empty and \<open>ParseCondition\<close> returns the
  error \<open>Empty condition\<close>.
\<close>

theorem whitespace_only_is_empty_condition:
  assumes "\<forall>c \<in> set s. c \<in> {CHR '' '', CHR 0x09, CHR 0x0D, CHR 0x0A}"
  shows "ParseCondition_loop (NewLexer s) [] [] = Some ([], [])
       \<and> ParseCondition s = Some (('''', Some (Errorf ''Empty condition'')), [])"
proof -
  have "\<forall>i. pos (NewLexer s) \<le> i \<and> i < len (input (NewLexer s)) \<longrightarrow>
       input (NewLexer s) ! nat i \<in> {CHR '' '', CHR 0x09, CHR 0x0D, CHR 0x0A}"
  proof (intro allI impI)
    fix i :: int
    assume "pos (NewLexer s) \<le> i \<and> i < len (input (NewLexer s))"
    then have "nat i < length s"
      by (auto simp: NewLexer_def len_def)
    then have "s ! nat i \<in> set s"
      by (rule nth_mem)
    with assms show "input (NewLexer s) ! nat i \<in> {CHR '' '', CHR 0x09, CHR 0x0D, CHR 0x0A}"
      by (simp add: NewLexer_def)
  qed
  then have "skipWhitespace (NewLexer s) = Some (NewLexer s\<lparr>pos := max (pos (NewLexer s)) (len (input (NewLexer s)))\<rparr>)"
    by (intro skipWhitespace_all_space) (simp_all add: NewLexer_def)
  then have "NextToken (NewLexer s) = Some (EOF, \<lparr>input = s, pos = len s\<rparr>, [])"
    by (simp add: NextToken_def NewLexer_def len_def)
  then have loop: "ParseCondition_loop (NewLexer s) [] [] = Some ([], [])"
    by (subst ParseCondition_loop.simps) simp
  then show ?thesis
    by (simp add: ParseCondition_def len_def)
qed

theorem whitespace_only_is_empty_condition_witness:
  "ParseCondition_loop (NewLexer [CHR '' '', CHR 0x09, CHR 0x0D, CHR 0x0A, CHR '' '']) [] []
       = Some ([], [])
   \<and> ParseCondition [CHR '' '', CHR 0x09, CHR 0x0D, CHR 0x0A, CHR '' '']
       = Some (('''', Some (Errorf ''Empty condition'')), [])
   \<and> ParseCondition '''' = Some (('''', Some (Errorf ''Empty condition'')), [])"
proof -
  have h: "\<forall>c \<in> set [CHR '' '', CHR 0x09, CHR 0x0D, CHR 0x0A, CHR '' ''].
      c \<in> {CHR '' '', CHR 0x09, CHR 0x0D, CHR 0x0A}"
    by simp
  have e: "\<forall>c \<in> set ''''. c \<in> {CHR '' '', CHR 0x09, CHR 0x0D, CHR 0x0A}"
    by simp
  from whitespace_only_is_empty_condition [OF h] whitespace_only_is_empty_condition [OF e]
  show ?thesis by simp
qed

text \<open>
  C2. When the token list of the input is not empty and its first token is none of
  \<open>NOT\<close>, \<open>LPAREN\<close>, \<open>EXISTS\<close>, \<open>IN\<close>, \<open>REG_MATCH\<close>, \<open>ILLEGAL\<close>, \<open>ParseCondition\<close>
  returns the input and no error, whatever the other tokens are.
\<close>

theorem other_first_token_accepted:
  assumes "ParseCondition_loop (NewLexer s) [] [] = Some (toks, out)"
    and "index toks 0 = Some t0"
    and "t0 \<notin> {NOT, LPAREN, EXISTS, IN, REG_MATCH, ILLEGAL}"
  shows "ParseCondition s = Some ((s, None), out)"
proof -
  from assms(2) have "len toks \<noteq> 0"
    by (auto simp: index_def split: if_splits)
  with assms show ?thesis
    by (simp add: ParseCondition_def Let_def)
qed

theorem other_first_token_accepted_witness:
  "ParseCondition_loop (NewLexer ''AND foo 12 ('') [] []
     = Some ([AND, ILLEGAL, ILLEGAL, ILLEGAL, LPAREN], [''foo''])
   \<and> index [AND, ILLEGAL, ILLEGAL, ILLEGAL, LPAREN] 0 = Some AND
   \<and> AND \<notin> {NOT, LPAREN, EXISTS, IN, REG_MATCH, ILLEGAL}
   \<and> ParseCondition ''AND foo 12 ('' = Some ((''AND foo 12 ('', None), [''foo''])"
proof -
  have h1: "ParseCondition_loop (NewLexer ''AND foo 12 ('') [] []
     = Some ([AND, ILLEGAL, ILLEGAL, ILLEGAL, LPAREN], [''foo''])"
    by code_simp
  have h2: "index [AND, ILLEGAL, ILLEGAL, ILLEGAL, LPAREN] 0 = Some AND"
    by (simp add: index_def len_def)
  have h3: "AND \<notin> {NOT, LPAREN, EXISTS, IN, REG_MATCH, ILLEGAL}"
    by simp
  from other_first_token_accepted [OF h1 h2 h3] h1 h2 h3 show ?thesis
    by simp
qed

text \<open>
  C3. When the first token is \<open>NOT\<close>: a token list of length 1 gives the error
  \<open>NOT operator must be followed by a condition\<close>; otherwise, a second token \<open>LPAREN\<close>
  with a last token other than \<open>RPAREN\<close> gives \<open>Mismatched parentheses\<close>; in every
  other case \<open>ParseCondition\<close> returns the input and no error, as it does for
  \<open>NOT (foo)\<close>.
\<close>

theorem first_token_NOT:
  assumes "ParseCondition_loop (NewLexer s) [] [] = Some (toks, out)"
    and "index toks 0 = Some NOT"
  shows "ParseCondition s =
     Some (if len toks = 1
             then ('''', Some (Errorf ''NOT operator must be followed by a condition''))
           else if index toks 1 = Some LPAREN \<and> index toks (len toks - 1) \<noteq> Some RPAREN
             then ('''', Some (Errorf ''Mismatched parentheses''))
           else (s, None), out)
     \<and> ParseCondition ''NOT (foo)'' = Some ((''NOT (foo)'', None), [''foo''])"
proof -
  from assms(2) have n: "len toks \<noteq> 0" "0 < len toks"
    by (auto simp: index_def split: if_splits)
  then have i1: "len toks \<noteq> 1 \<Longrightarrow> index toks 1 = Some (toks ! 1)"
    and il: "index toks (len toks - 1) = Some (toks ! nat (len toks - 1))"
    by (auto simp: index_def)
  from assms n i1 il have general: "ParseCondition s =
     Some (if len toks = 1
             then ('''', Some (Errorf ''NOT operator must be followed by a condition''))
           else if index toks 1 = Some LPAREN \<and> index toks (len toks - 1) \<noteq> Some RPAREN
             then ('''', Some (Errorf ''Mismatched parentheses''))
           else (s, None), out)"
    by (simp add: ParseCondition_def Let_def)
  have "ParseCondition ''NOT (foo)'' = Some ((''NOT (foo)'', None), [''foo''])"
    by code_simp
  with general show ?thesis by simp
qed

theorem first_token_NOT_witness:
  "ParseCondition_loop (NewLexer ''NOT'') [] [] = Some ([NOT], [])
   \<and> ParseCondition ''NOT''
       = Some (('''', Some (Errorf ''NOT operator must be followed by a condition'')), [])
   \<and> ParseCondition_loop (NewLexer ''NOT (foo'') [] [] = Some ([NOT, LPAREN, ILLEGAL], [''foo''])
   \<and> ParseCondition ''NOT (foo'' = Some (('''', Some (Errorf ''Mismatched parentheses'')), [''foo''])
   \<and> ParseCondition_loop (NewLexer ''NOT foo)('') [] []
       = Some ([NOT, ILLEGAL, RPAREN, LPAREN], [''foo''])
   \<and> ParseCondition ''NOT foo)('' = Some ((''NOT foo)('', None), [''foo''])"
proof -
  have a1: "ParseCondition_loop (NewLexer ''NOT'') [] [] = Some ([NOT], [])"
    by code_simp
  have a2: "index [NOT] 0 = Some NOT"
    by (simp add: index_def len_def)
  have b1: "ParseCondition_loop (NewLexer ''NOT (foo'') [] []
      = Some ([NOT, LPAREN, ILLEGAL], [''foo''])"
    by code_simp
  have b2: "index [NOT, LPAREN, ILLEGAL] 0 = Some NOT"
    by (simp add: index_def len_def)
  have c1: "ParseCondition_loop (NewLexer ''NOT foo)('') [] []
      = Some ([NOT, ILLEGAL, RPAREN, LPAREN], [''foo''])"
    by code_simp
  have c2: "index [NOT, ILLEGAL, RPAREN, LPAREN] 0 = Some NOT"
    by (simp add: index_def len_def)
  from first_token_NOT [OF a1 a2] first_token_NOT [OF b1 b2] first_token_NOT [OF c1 c2]
    a1 b1 c1
  show ?thesis
    by (simp add: index_def len_def)
qed

text \<open>
  C5. When the first token is \<open>LPAREN\<close>, \<open>ParseCondition\<close> returns the error
  \<open>Mismatched parentheses\<close> exactly when the last token is not \<open>RPAREN\<close>, and returns
  the input and no error when it is; \<open>(A AND B\<close> is rejected with
  \<open>Mismatched parentheses\<close>.
\<close>

theorem first_token_LPAREN:
  assumes "ParseCondition_loop (NewLexer s) [] [] = Some (toks, out)"
    and "index toks 0 = Some LPAREN"
  shows "(ParseCondition s = Some (('''', Some (Errorf ''Mismatched parentheses'')), out)
            \<longleftrightarrow> index toks (len toks - 1) \<noteq> Some RPAREN)
     \<and> (ParseCondition s = Some ((s, None), out)
            \<longleftrightarrow> index toks (len toks - 1) = Some RPAREN)
     \<and> ParseCondition ''(A AND B''
          = Some (('''', Some (Errorf ''Mismatched parentheses'')), [''A'', ''B''])"
proof -
  from assms(2) have n: "len toks \<noteq> 0" "0 < len toks"
    by (auto simp: index_def split: if_splits)
  then have il: "index toks (len toks - 1) = Some (toks ! nat (len toks - 1))"
    by (auto simp: index_def)
  from assms n il have general: "ParseCondition s =
     Some (if index toks (len toks - 1) \<noteq> Some RPAREN
             then ('''', Some (Errorf ''Mismatched parentheses''))
           else (s, None), out)"
    by (simp add: ParseCondition_def Let_def)
  have "ParseCondition ''(A AND B''
      = Some (('''', Some (Errorf ''Mismatched parentheses'')), [''A'', ''B''])"
    by code_simp
  with general show ?thesis by simp
qed

theorem first_token_LPAREN_witness:
  "ParseCondition_loop (NewLexer ''(A AND B'') [] []
       = Some ([LPAREN, ILLEGAL, AND, ILLEGAL], [''A'', ''B''])
   \<and> index [LPAREN, ILLEGAL, AND, ILLEGAL] 0 = Some LPAREN
   \<and> ParseCondition ''(A AND B''
       = Some (('''', Some (Errorf ''Mismatched parentheses'')), [''A'', ''B''])
   \<and> ParseCondition_loop (NewLexer ''() AND )'') [] [] = Some ([LPAREN, RPAREN, AND, RPAREN], [])
   \<and> index [LPAREN, RPAREN, AND, RPAREN] 0 = Some LPAREN
   \<and> ParseCondition ''() AND )'' = Some ((''() AND )'', None), [])"
proof -
  have a1: "ParseCondition_loop (NewLexer ''(A AND B'') [] []
       = Some ([LPAREN, ILLEGAL, AND, ILLEGAL], [''A'', ''B''])"
    by code_simp
  have a2: "index [LPAREN, ILLEGAL, AND, ILLEGAL] 0 = Some LPAREN"
    by (simp add: index_def len_def)
  have b1: "ParseCondition_loop (NewLexer ''() AND )'') [] []
       = Some ([LPAREN, RPAREN, AND, RPAREN], [])"
    by code_simp
  have b2: "index [LPAREN, RPAREN, AND, RPAREN] 0 = Some LPAREN"
    by (simp add: index_def len_def)
  from first_token_LPAREN [OF a1 a2] first_token_LPAREN [OF b1 b2] a1 a2 b1 b2
  show ?thesis
    by (simp add: index_def len_def)
qed

text \<open>
  C6. The two-byte operators. Let \<open>l\<close> be the lexer after \<open>skipWhitespace\<close>, with its
  cursor on the byte \<open>=\<close>, \<open>!\<close>, \<open><\<close> or \<open>>\<close>. \<open>NextToken\<close> returns \<open>REG_MATCH\<close> for
  \<open>=\<close> followed by \<open>~\<close> and \<open>EQUALS\<close> for any other \<open>=\<close>; \<open>NOT_EQUALS\<close> for \<open>!\<close> followed
  by \<open>=\<close> and \<open>NOT\<close> for any other \<open>!\<close>; \<open>LTE\<close> for \<open><\<close> followed by \<open>=\<close> and \<open>LT\<close>
  for any other \<open><\<close>; \<open>GTE\<close> for \<open>>\<close> followed by \<open>=\<close> and \<open>GT\<close> for any other \<open>>\<close>.
  The cursor moves by two bytes when the second byte matches and by one byte otherwise.
\<close>

theorem lookahead_operators:
  assumes "skipWhitespace l0 = Some l"
  shows "(index (input l) (pos l) = Some CHR ''='' \<longrightarrow>
            NextToken l0 =
              (if index (input l) (pos l + 1) = Some CHR ''~''
               then Some (REG_MATCH, l\<lparr>pos := pos l + 2\<rparr>, [])
               else Some (EQUALS, l\<lparr>pos := pos l + 1\<rparr>, [])))
       \<and> (index (input l) (pos l) = Some CHR ''!'' \<longrightarrow>
            NextToken l0 =
              (if index (input l) (pos l + 1) = Some CHR ''=''
               then Some (NOT_EQUALS, l\<lparr>pos := pos l + 2\<rparr>, [])
               else Some (NOT, l\<lparr>pos := pos l + 1\<rparr>, [])))
       \<and> (index (input l) (pos l) = Some CHR ''<'' \<longrightarrow>
            NextToken l0 =
              (if index (input l) (pos l + 1) = Some CHR ''=''
               then Some (LTE, l\<lparr>pos := pos l + 2\<rparr>, [])
               else Some (LT, l\<lparr>pos := pos l + 1\<rparr>, [])))
       \<and> (index (input l) (pos l) = Some CHR ''>'' \<longrightarrow>
            NextToken l0 =
              (if index (input l) (pos l + 1) = Some CHR ''=''
               then Some (GTE, l\<lparr>pos := pos l + 2\<rparr>, [])
               else Some (GT, l\<lparr>pos := pos l + 1\<rparr>, [])))"
proof (intro conjI impI)
  assume "index (input l) (pos l) = Some CHR ''=''"
  from NextToken_lookahead [OF assms this]
  show "NextToken l0 =
      (if index (input l) (pos l + 1) = Some CHR ''~''
       then Some (REG_MATCH, l\<lparr>pos := pos l + 2\<rparr>, [])
       else Some (EQUALS, l\<lparr>pos := pos l + 1\<rparr>, []))"
    by simp
next
  assume "index (input l) (pos l) = Some CHR ''!''"
  from NextToken_lookahead [OF assms this]
  show "NextToken l0 =
      (if index (input l) (pos l + 1) = Some CHR ''=''
       then Some (NOT_EQUALS, l\<lparr>pos := pos l + 2\<rparr>, [])
       else Some (NOT, l\<lparr>pos := pos l + 1\<rparr>, []))"
    by simp
next
  assume "index (input l) (pos l) = Some CHR ''<''"
  from NextToken_lookahead [OF assms this]
  show "NextToken l0 =
      (if index (input l) (pos l + 1) = Some CHR ''=''
       then Some (LTE, l\<lparr>pos := pos l + 2\<rparr>, [])
       else Some (LT, l\<lparr>pos := pos l + 1\<rparr>, []))"
    by simp
next
  assume "index (input l) (pos l) = Some CHR ''>''"
  from NextToken_lookahead [OF assms this]
  show "NextToken l0 =
      (if index (input l) (pos l + 1) = Some CHR ''=''
       then Some (GTE, l\<lparr>pos := pos l + 2\<rparr>, [])
       else Some (GT, l\<lparr>pos := pos l + 1\<rparr>, []))"
    by simp
qed

text \<open>
  The witness runs \<open>NextToken\<close> on the input \<open>=~ == !=! <=< >=>\<close> at the eight cursor
  positions where an operator starts (for the first the lexer starts on a space that
  \<open>skipWhitespace\<close> passes).
\<close>

theorem lookahead_operators_witness:
  "skipWhitespace \<lparr>input = '' =~==!=!<=<>=>'', pos = 0\<rparr>
     = Some \<lparr>input = '' =~==!=!<=<>=>'', pos = 1\<rparr>
   \<and> NextToken \<lparr>input = '' =~==!=!<=<>=>'', pos = 0\<rparr>
     = Some (REG_MATCH, \<lparr>input = '' =~==!=!<=<>=>'', pos = 3\<rparr>, [])
   \<and> NextToken \<lparr>input = '' =~==!=!<=<>=>'', pos = 3\<rparr>
     = Some (EQUALS, \<lparr>input = '' =~==!=!<=<>=>'', pos = 4\<rparr>, [])
   \<and> NextToken \<lparr>input = '' =~==!=!<=<>=>'', pos = 5\<rparr>
     = Some (NOT_EQUALS, \<lparr>input = '' =~==!=!<=<>=>'', pos = 7\<rparr>, [])
   \<and> NextToken \<lparr>input = '' =~==!=!<=<>=>'', pos = 7\<rparr>
     = Some (NOT, \<lparr>input = '' =~==!=!<=<>=>'', pos = 8\<rparr>, [])
   \<and> NextToken \<lparr>input = '' =~==!=!<=<>=>'', pos = 8\<rparr>
     = Some (LTE, \<lparr>input = '' =~==!=!<=<>=>'', pos = 10\<rparr>, [])
   \<and> NextToken \<lparr>input = '' =~==!=!<=<>=>'', pos = 10\<rparr>
     = Some (LT, \<lparr>input = '' =~==!=!<=<>=>'', pos = 11\<rparr>, [])
   \<and> NextToken \<lparr>input = '' =~==!=!<=<>=>'', pos = 11\<rparr>
     = Some (GTE, \<lparr>input = '' =~==!=!<=<>=>'', pos = 13\<rparr>, [])
   \<and> NextToken \<lparr>input = '' =~==!=!<=<>=>'', pos = 13\<rparr>
     = Some (GT, \<lparr>input = '' =~==!=!<=<>=>'', pos = 14\<rparr>, [])"
proof -
  have s0: "skipWhitespace \<lparr>input = '' =~==!=!<=<>=>'', pos = 0\<rparr>
      = Some \<lparr>input = '' =~==!=!<=<>=>'', pos = 1\<rparr>"
    by code_simp
  have s3: "skipWhitespace \<lparr>input = '' =~==!=!<=<>=>'', pos = 3\<rparr>
      = Some \<lparr>input = '' =~==!=!<=<>=>'', pos = 3\<rparr>"
    by code_simp
  have s5: "skipWhitespace \<lparr>input = '' =~==!=!<=<>=>'', pos = 5\<rparr>
      = Some \<lparr>input = '' =~==!=!<=<>=>'', pos = 5\<rparr>"
    by code_simp
  have s7: "skipWhitespace \<lparr>input = '' =~==!=!<=<>=>'', pos = 7\<rparr>
      = Some \<lparr>input = '' =~==!=!<=<>=>'', pos = 7\<rparr>"
    by code_simp
  have s8: "skipWhitespace \<lparr>input = '' =~==!=!<=<>=>'', pos = 8\<rparr>
      = Some \<lparr>input = '' =~==!=!<=<>=>'', pos = 8\<rparr>"
    by code_simp
  have s10: "skipWhitespace \<lparr>input = '' =~==!=!<=<>=>'', pos = 10\<rparr>
      = Some \<lparr>input = '' =~==!=!<=<>=>'', pos = 10\<rparr>"
    by code_simp
  have s11: "skipWhitespace \<lparr>input = '' =~==!=!<=<>=>'', pos = 11\<rparr>
      = Some \<lparr>input = '' =~==!=!<=<>=>'', pos = 11\<rparr>"
    by code_simp
  have s13: "skipWhitespace \<lparr>input = '' =~==!=!<=<>=>'', pos = 13\<rparr>
      = Some \<lparr>input = '' =~==!=!<=<>=>'', pos = 13\<rparr>"
    by code_simp
  from lookahead_operators [OF s0] lookahead_operators [OF s3] lookahead_operators [OF s5]
    lookahead_operators [OF s7] lookahead_operators [OF s8] lookahead_operators [OF s10]
    lookahead_operators [OF s11] lookahead_operators [OF s13] s0
  show ?thesis
    by (simp add: index_def len_def)
qed

text \<open>
  C8. \<open>ParseCondition\<close> always returns (a string, an error or \<open>nil\<close>, and never a
  panic), and whenever the error is \<open>nil\<close> the string is the input itself, byte for
  byte.
\<close>

theorem accepted_input_returned_unchanged:
  "(\<exists>r e out. ParseCondition s = Some ((r, e), out))
   \<and> (\<forall>r out. ParseCondition s = Some ((r, None), out) \<longrightarrow> r = s)"
  using ParseCondition_total [of s] by auto

theorem accepted_input_returned_unchanged_witness:
  "\<exists>r out. ParseCondition [CHR '' '', CHR ''<'', CHR 0x09, CHR ''f'', CHR ''o'', CHR 0x0A]
               = Some ((r, None), out)
     \<and> r = [CHR '' '', CHR ''<'', CHR 0x09, CHR ''f'', CHR ''o'', CHR 0x0A]"
proof -
  have h: "ParseCondition [CHR '' '', CHR ''<'', CHR 0x09, CHR ''f'', CHR ''o'', CHR 0x0A]
      = Some (([CHR '' '', CHR ''<'', CHR 0x09, CHR ''f'', CHR ''o'', CHR 0x0A], None), [''fo''])"
    by code_simp
  from accepted_input_returned_unchanged
    [of "[CHR '' '', CHR ''<'', CHR 0x09, CHR ''f'', CHR ''o'', CHR 0x0A]"] h
  show ?thesis by blast
qed

text \<open>
  C9. When the first token is \<open>EXISTS\<close>, \<open>IN\<close> or \<open>REG_MATCH\<close> and the second token is
  \<open>WHITESPACE\<close>, \<open>ParseCondition\<close> returns the input and no error, whatever follows
  and also when nothing follows: \<open>EXISTS ,\<close> and \<open>IN ,\<close> are accepted. \<open>NextToken\<close>
  returns \<open>WHITESPACE\<close> only for a comma: the byte before the returned cursor is \<open>,\<close>.
\<close>

theorem operator_then_comma_accepted:
  assumes "ParseCondition_loop (NewLexer s) [] [] = Some (toks, out)"
    and "index toks 0 = Some t0"
    and "t0 \<in> {EXISTS, IN, REG_MATCH}"
    and "index toks 1 = Some WHITESPACE"
  shows "ParseCondition s = Some ((s, None), out)
     \<and> ParseCondition ''EXISTS ,'' = Some ((''EXISTS ,'', None), [])
     \<and> ParseCondition ''IN ,'' = Some ((''IN ,'', None), [])
     \<and> (\<forall>l l' printed. NextToken l = Some (WHITESPACE, l', printed)
            \<longrightarrow> index (input l') (pos l' - 1) = Some CHR '','')"
proof -
  from assms(2,4) have n: "len toks \<noteq> 0" "len toks \<noteq> 1"
    by (auto simp: index_def split: if_splits)
  with assms have general: "ParseCondition s = Some ((s, None), out)"
    by (auto simp add: ParseCondition_def Let_def)
  have e1: "ParseCondition ''EXISTS ,'' = Some ((''EXISTS ,'', None), [])"
    by code_simp
  have e2: "ParseCondition ''IN ,'' = Some ((''IN ,'', None), [])"
    by code_simp
  from general e1 e2 NextToken_WHITESPACE_comma show ?thesis
    by blast
qed

theorem operator_then_comma_accepted_witness:
  "ParseCondition_loop (NewLexer ''EXISTS ,'') [] [] = Some ([EXISTS, WHITESPACE], [])
   \<and> ParseCondition ''EXISTS ,'' = Some ((''EXISTS ,'', None), [])
   \<and> ParseCondition_loop (NewLexer ''IN ,'') [] [] = Some ([IN, WHITESPACE], [])
   \<and> ParseCondition ''IN ,'' = Some ((''IN ,'', None), [])
   \<and> ParseCondition_loop (NewLexer ''=~, ) 7'') [] []
       = Some ([REG_MATCH, WHITESPACE, RPAREN, ILLEGAL], [])
   \<and> ParseCondition ''=~, ) 7'' = Some ((''=~, ) 7'', None), [])
   \<and> NextToken (NewLexer '' ,a'') = Some (WHITESPACE, \<lparr>input = '' ,a'', pos = 2\<rparr>, [])
   \<and> index '' ,a'' (2 - 1) = Some CHR '',''"
proof -
  have a1: "ParseCondition_loop (NewLexer ''EXISTS ,'') [] [] = Some ([EXISTS, WHITESPACE], [])"
    by code_simp
  have b1: "ParseCondition_loop (NewLexer ''IN ,'') [] [] = Some ([IN, WHITESPACE], [])"
    by code_simp
  have c1: "ParseCondition_loop (NewLexer ''=~, ) 7'') [] []
       = Some ([REG_MATCH, WHITESPACE, RPAREN, ILLEGAL], [])"
    by code_simp
  have a2: "index [EXISTS, WHITESPACE] 0 = Some EXISTS"
    and b2: "index [IN, WHITESPACE] 0 = Some IN"
    and c2: "index [REG_MATCH, WHITESPACE, RPAREN, ILLEGAL] 0 = Some REG_MATCH"
    by (simp_all add: index_def len_def)
  have a3: "EXISTS \<in> {EXISTS, IN, REG_MATCH}"
    and b3: "IN \<in> {EXISTS, IN, REG_MATCH}"
    and c3: "REG_MATCH \<in> {EXISTS, IN, REG_MATCH}"
    by simp_all
  have a4: "index [EXISTS, WHITESPACE] 1 = Some WHITESPACE"
    and b4: "index [IN, WHITESPACE] 1 = Some WHITESPACE"
    and c4: "index [REG_MATCH, WHITESPACE, RPAREN, ILLEGAL] 1 = Some WHITESPACE"
    by (simp_all add: index_def len_def)
  have d: "NextToken (NewLexer '' ,a'') = Some (WHITESPACE, \<lparr>input = '' ,a'', pos = 2\<rparr>, [])"
    by code_simp
  note A = operator_then_comma_accepted [OF a1 a2 a3 a4]
  note B = operator_then_comma_accepted [OF b1 b2 b3 b4]
  note C = operator_then_comma_accepted [OF c1 c2 c3 c4]
  from A have "index (input \<lparr>input = '' ,a'', pos = 2\<rparr>) (pos \<lparr>input = '' ,a'', pos = 2\<rparr> - 1)
      = Some CHR '',''"
    using d by blast
  then have d2: "index '' ,a'' (2 - 1) = Some CHR '',''"
    by simp
  from A B C a1 b1 c1 d d2 show ?thesis
    by simp
qed

text \<open>
  C10. A \<open>!\<close> that is not followed by \<open>=\<close> gives the token \<open>NOT\<close>, the token that the
  keyword table gives for the word \<open>NOT\<close>: the inputs \<open>!\<close> and \<open>NOT\<close> have the same
  token list, and \<open>ParseCondition\<close> rejects \<open>!\<close> with the error
  \<open>NOT operator must be followed by a condition\<close>.
\<close>

theorem bang_is_NOT:
  assumes "skipWhitespace l0 = Some l"
    and "index (input l) (pos l) = Some CHR ''!''"
    and "index (input l) (pos l + 1) \<noteq> Some CHR ''=''"
  shows "NextToken l0 = Some (NOT, l\<lparr>pos := pos l + 1\<rparr>, [])
     \<and> keywords_map ''NOT'' = Some NOT
     \<and> ParseCondition_loop (NewLexer ''!'') [] [] = Some ([NOT], [])
     \<and> ParseCondition_loop (NewLexer ''NOT'') [] [] = Some ([NOT], [])
     \<and> ParseCondition ''!''
          = Some (('''', Some (Errorf ''NOT operator must be followed by a condition'')), [])"
proof -
  from NextToken_lookahead [OF assms(1,2)] assms(3)
  have general: "NextToken l0 = Some (NOT, l\<lparr>pos := pos l + 1\<rparr>, [])"
    by simp
  have k: "keywords_map ''NOT'' = Some NOT"
    by (simp add: keywords_map_def)
  have t1: "ParseCondition_loop (NewLexer ''!'') [] [] = Some ([NOT], [])"
    by code_simp
  have t2: "ParseCondition_loop (NewLexer ''NOT'') [] [] = Some ([NOT], [])"
    by code_simp
  have r: "ParseCondition ''!''
      = Some (('''', Some (Errorf ''NOT operator must be followed by a condition'')), [])"
    by code_simp
  from general k t1 t2 r show ?thesis
    by simp
qed

theorem bang_is_NOT_witness:
  "skipWhitespace (NewLexer ''!'') = Some (NewLexer ''!'')
   \<and> index (input (NewLexer ''!'')) (pos (NewLexer ''!'')) = Some CHR ''!''
   \<and> index (input (NewLexer ''!'')) (pos (NewLexer ''!'') + 1) \<noteq> Some CHR ''=''
   \<and> NextToken (NewLexer ''!'') = Some (NOT, \<lparr>input = ''!'', pos = 1\<rparr>, [])
   \<and> NextToken \<lparr>input = ''a !b'', pos = 1\<rparr> = Some (NOT, \<lparr>input = ''a !b'', pos = 3\<rparr>, [])"
proof -
  have a1: "skipWhitespace (NewLexer ''!'') = Some (NewLexer ''!'')"
    by code_simp
  have a2: "index (input (NewLexer ''!'')) (pos (NewLexer ''!'')) = Some CHR ''!''"
    by (simp add: index_def len_def NewLexer_def)
  have a3: "index (input (NewLexer ''!'')) (pos (NewLexer ''!'') + 1) \<noteq> Some CHR ''=''"
    by (simp add: index_def len_def NewLexer_def)
  have b1: "skipWhitespace \<lparr>input = ''a !b'', pos = 1\<rparr> = Some \<lparr>input = ''a !b'', pos = 2\<rparr>"
    by code_simp
  have b2: "index (input \<lparr>input = ''a !b'', pos = 2\<rparr>) (pos \<lparr>input = ''a !b'', pos = 2\<rparr>)
      = Some CHR ''!''"
    by (simp add: index_def len_def)
  have b3: "index (input \<lparr>input = ''a !b'', pos = 2\<rparr>) (pos \<lparr>input = ''a !b'', pos = 2\<rparr> + 1)
      \<noteq> Some CHR ''=''"
    by (simp add: index_def len_def)
  from bang_is_NOT [OF a1 a2 a3] bang_is_NOT [OF b1 b2 b3] a1 a2 a3
  show ?thesis
    by (simp add: NewLexer_def)
qed

text \<open>
  C1. On the input \<open>EXISTS foo\<close> the lexer skips the space and reads \<open>foo\<close> as a word
  that is not in the keyword table: the token list is \<open>[EXISTS, ILLEGAL]\<close>, the second
  token is not \<open>WHITESPACE\<close>, and \<open>ParseCondition\<close> returns the error
  \<open>EXISTS operator must be followed by a field name\<close> instead of the input.
\<close>

theorem EXISTS_foo_rejected:
  "ParseCondition_loop (NewLexer ''EXISTS foo'') [] [] = Some ([EXISTS, ILLEGAL], [''foo''])
   \<and> ParseCondition ''EXISTS foo''
       = Some (('''', Some (Errorf ''EXISTS operator must be followed by a field name'')),
               [''foo''])"
  by code_simp

end
